theory Spec2Isabelle
  imports Complex_Main
begin

section \<open>Python values, exceptions and built-ins\<close>

text \<open>
  The exception classes that the module raises, catches or lets through.
  \<open>FileNotFoundError\<close>, \<open>NotADirectoryError\<close> and \<open>PermissionError\<close> are subclasses
  of \<open>OSError\<close>; \<open>DecompressionBombError\<close> is Pillow's error for an image whose pixel
  count is over its safety limit and derives from \<open>Exception\<close> directly, as
  \<open>TypeError\<close>, \<open>ValueError\<close>, \<open>IndexError\<close> and \<open>RuntimeError\<close> do.
\<close>

datatype pyexn =
    OSError
  | FileNotFoundError
  | NotADirectoryError
  | PermissionError
  | UnidentifiedImageError
  | DecompressionBombError
  | TypeError
  | ValueError
  | IndexError
  | RuntimeError

fun is_OSError :: "pyexn \<Rightarrow> bool" where
  "is_OSError OSError = True"
| "is_OSError FileNotFoundError = True"
| "is_OSError NotADirectoryError = True"
| "is_OSError PermissionError = True"
| "is_OSError _ = False"

text \<open>
  Strings are byte lists holding the UTF-8 encoding of the Python \<open>str\<close>, a path is
  the list of its components. The objects stored in \<open>img.info\<close> are ints, floats,
  strings, tuples or \<open>None\<close>. A Python float is modelled by the real number it stands
  for: the only float arithmetic of the module is one multiplication by \<open>2.54\<close>.
\<close>

type_synonym path = "string list"

datatype pyval =
    PNone
  | PInt int
  | PFloat real
  | PStr string
  | PTuple "pyval list"

text \<open>
  Two built-ins whose result this model of values does not determine are parameters:
  \<open>float(s)\<close> on a string and \<open>str(v)\<close> on a float or a tuple.
\<close>

record py_builtins =
  float_of_str :: "string \<Rightarrow> pyexn + real"
  str_other :: "pyval \<Rightarrow> string"

definition bind_exn :: "pyexn + 'a \<Rightarrow> ('a \<Rightarrow> pyexn + 'b) \<Rightarrow> pyexn + 'b" where
  "bind_exn r f = (case r of Inl e \<Rightarrow> Inl e | Inr v \<Rightarrow> f v)"

text \<open>\<open>float(v)\<close>.\<close>

fun py_float :: "py_builtins \<Rightarrow> pyval \<Rightarrow> pyexn + real" where
  "py_float bi (PInt i) = Inr (of_int i)"
| "py_float bi (PFloat r) = Inr r"
| "py_float bi (PStr s) = float_of_str bi s"
| "py_float bi PNone = Inl TypeError"
| "py_float bi (PTuple vs) = Inl TypeError"

text \<open>\<open>v == n\<close> for an int literal \<open>n\<close>.\<close>

fun py_eq_int :: "pyval \<Rightarrow> int \<Rightarrow> bool" where
  "py_eq_int (PInt i) n = (i = n)"
| "py_eq_int (PFloat r) n = (r = of_int n)"
| "py_eq_int _ n = False"

text \<open>\<open>x, y = v\<close>: a tuple or a string of exactly two items.\<close>

fun unpack2 :: "pyval \<Rightarrow> pyexn + (pyval \<times> pyval)" where
  "unpack2 (PTuple vs) = (case vs of [x, y] \<Rightarrow> Inr (x, y) | _ \<Rightarrow> Inl ValueError)"
| "unpack2 (PStr s) = (case s of [c, d] \<Rightarrow> Inr (PStr [c], PStr [d]) | _ \<Rightarrow> Inl ValueError)"
| "unpack2 _ = Inl TypeError"

text \<open>Decimal rendering of an int, as \<open>str\<close> and an f-string do.\<close>

fun str_nat :: "nat \<Rightarrow> string" where
  "str_nat n =
     (if n < 10 then [''0123456789'' ! n]
      else str_nat (n div 10) @ [''0123456789'' ! (n mod 10)])"

declare str_nat.simps [simp del]

definition str_int :: "int \<Rightarrow> string" where
  "str_int i = (if i < 0 then ''-'' @ str_nat (nat (- i)) else str_nat (nat i))"

text \<open>\<open>str(v)\<close>.\<close>

fun py_str :: "py_builtins \<Rightarrow> pyval \<Rightarrow> string" where
  "py_str bi (PStr s) = s"
| "py_str bi (PInt i) = str_int i"
| "py_str bi PNone = ''None''"
| "py_str bi v = str_other bi v"

text \<open>\<open>str.lower\<close> and \<open>str.upper\<close> on the ASCII letters; other bytes are kept.\<close>

definition ascii_upper :: string where
  "ascii_upper = ''ABCDEFGHIJKLMNOPQRSTUVWXYZ''"

definition ascii_lower :: string where
  "ascii_lower = ''abcdefghijklmnopqrstuvwxyz''"

definition lower_char :: "char \<Rightarrow> char" where
  "lower_char c = (case map_of (zip ascii_upper ascii_lower) c of Some d \<Rightarrow> d | None \<Rightarrow> c)"

definition upper_char :: "char \<Rightarrow> char" where
  "upper_char c = (case map_of (zip ascii_lower ascii_upper) c of Some d \<Rightarrow> d | None \<Rightarrow> c)"

definition lower :: "string \<Rightarrow> string" where
  "lower s = map lower_char s"

definition upper :: "string \<Rightarrow> string" where
  "upper s = map upper_char s"

text \<open>
  \<open>PurePath.suffix\<close>: the part of the name from its last dot on, empty when the name
  has no dot or when the last dot is the first or the last character.
\<close>

fun rfind_dot :: "string \<Rightarrow> nat option" where
  "rfind_dot [] = None"
| "rfind_dot (c # cs) =
     (case rfind_dot cs of
        Some i \<Rightarrow> Some (Suc i)
      | None \<Rightarrow> if c = CHR ''.'' then Some 0 else None)"

definition suffix :: "string \<Rightarrow> string" where
  "suffix nm =
     (case rfind_dot nm of
        None \<Rightarrow> []
      | Some i \<Rightarrow> if 0 < i \<and> i + 1 < length nm then drop i nm else [])"

section \<open>Module constants\<close>

definition SUPPORTED_EXTENSIONS :: "string \<rightharpoonup> string" where
  "SUPPORTED_EXTENSIONS = map_of
     [(''.jpg'', ''JPEG''), (''.jpeg'', ''JPEG''), (''.png'', ''PNG''), (''.bmp'', ''BMP''),
      (''.gif'', ''GIF''), (''.tif'', ''TIFF''), (''.tiff'', ''TIFF''), (''.pcx'', ''PCX'')]"

definition MAX_FILES :: int where
  "MAX_FILES = 100000"

definition MODE_DEFAULT_BITS :: "string \<rightharpoonup> int" where
  "MODE_DEFAULT_BITS = map_of
     [(''1'', 1), (''L'', 8), (''P'', 8), (''RGB'', 8), (''RGBA'', 8), (''CMYK'', 8),
      (''YCbCr'', 8), (''LAB'', 8), (''HSV'', 8), (''I'', 16), (''I;16'', 16), (''F'', 32)]"

definition FORMAT_COMPRESSION_HINTS :: "string \<rightharpoonup> string" where
  "FORMAT_COMPRESSION_HINTS = map_of
     [(''JPEG'', ''JPEG (lossy)''), (''PNG'', ''Deflate''), (''GIF'', ''LZW''),
      (''BMP'', ''None/RLE''), (''TIFF'', ''Depends on tag''), (''PCX'', ''RLE'')]"

text \<open>The two Cyrillic literals of the module, as UTF-8 bytes.\<close>

definition bit_word :: string where
  "bit_word = [CHR 0xD0, CHR 0xB1, CHR 0xD0, CHR 0xB8, CHR 0xD1, CHR 0x82]"

definition not_available :: string where
  "not_available = [CHR 0xD0, CHR 0xBD, CHR ''/'', CHR 0xD0, CHR 0xB4]"

section \<open>The data model\<close>

record ImageInfo =
  path :: path
  name :: string
  format :: string
  width_px :: int
  height_px :: int
  dpi_x :: "real option"
  dpi_y :: "real option"
  color_depth :: string
  compression :: string

text \<open>
  What the module reads of an opened Pillow image: \<open>img.format\<close> (\<open>None\<close> when the
  decoder names none), \<open>img.size\<close>, \<open>img.mode\<close>, \<open>img.getbands()\<close>, the attribute
  \<open>bits\<close> (\<open>None\<close> when the image has none), and the dictionary \<open>img.info\<close>
  (\<open>None\<close> is allowed for, as the code does with \<open>img.info or {}\<close>).
\<close>

record image =
  img_format :: "string option"
  img_size :: "int \<times> int"
  img_mode :: string
  img_bands :: "string list"
  img_bits :: "int option"
  img_info :: "(string \<rightharpoonup> pyval) option"

text \<open>
  A file system tree as \<open>os.scandir\<close> shows it. A directory carries the exception that
  enumerating it raises, if any, and its entries in enumeration order; a symlink
  carries its target, which the walk never reads; \<open>Special\<close> is an entry that is
  neither link, directory nor regular file.
\<close>

datatype fsnode =
    File
  | Symlink path
  | Special
  | Dir "pyexn option" "(string \<times> fsnode) list"

type_synonym listing = "(string \<times> fsnode) list"

fun is_symlink :: "fsnode \<Rightarrow> bool" where
  "is_symlink (Symlink t) = True"
| "is_symlink _ = False"

fun is_dir :: "fsnode \<Rightarrow> bool" where
  "is_dir (Dir e es) = True"
| "is_dir _ = False"

text \<open>
  What \<open>stat\<close>, which follows links, does on the expanded root path: it finds a node;
  or it fails with an error that \<open>pathlib\<close> ignores (errno \<open>ENOENT\<close>, \<open>ENOTDIR\<close>,
  \<open>EBADF\<close> or \<open>ELOOP\<close>, or a \<open>ValueError\<close>), so that nothing is there; or it raises
  another \<open>OSError\<close>, which \<open>pathlib\<close> lets through, as for a parent directory that
  may not be searched (\<open>PermissionError\<close>) or a name that is too long.
\<close>

datatype stat_result =
    Found fsnode
  | NotFound
  | StatError pyexn

text \<open>\<open>root.exists()\<close> and \<open>root.is_dir()\<close>: a truth value, or the exception let through.\<close>

definition path_exists :: "stat_result \<Rightarrow> pyexn + bool" where
  "path_exists st =
     (case st of Found node \<Rightarrow> Inr True | NotFound \<Rightarrow> Inr False | StatError e \<Rightarrow> Inl e)"

definition path_is_dir :: "stat_result \<Rightarrow> pyexn + bool" where
  "path_is_dir st =
     (case st of Found node \<Rightarrow> Inr (is_dir node) | NotFound \<Rightarrow> Inr False | StatError e \<Rightarrow> Inl e)"

section \<open>The directory walk\<close>

text \<open>A directory on the stack: its path, and what \<open>os.scandir\<close> does on it.\<close>

type_synonym directory = "path \<times> pyexn option \<times> listing"

text \<open>
  The body of \<open>for entry in it\<close> over the entries of one directory: the directories
  it appends to the stack, in order, and the paths it yields, in order. A symlink
  passes \<open>is_symlink\<close> and is left; a directory passes \<open>is_dir\<close> and is appended when
  \<open>recursive\<close> holds (it is no regular file otherwise); a regular file is yielded when
  its lower-cased suffix is a key of \<open>SUPPORTED_EXTENSIONS\<close>.
\<close>

fun scan_entries :: "bool \<Rightarrow> path \<Rightarrow> listing \<Rightarrow> directory list \<times> path list" where
  "scan_entries recursive current [] = ([], [])"
| "scan_entries recursive current ((nm, node) # es) =
     (case scan_entries recursive current es of (pushed, yielded) \<Rightarrow>
        (case node of
           Symlink t \<Rightarrow> (pushed, yielded)
         | Dir e sub \<Rightarrow>
             if recursive then ((current @ [nm], e, sub) # pushed, yielded)
             else (pushed, yielded)
         | File \<Rightarrow>
             if lower (suffix nm) \<in> dom SUPPORTED_EXTENSIONS
             then (pushed, (current @ [nm]) # yielded)
             else (pushed, yielded)
         | Special \<Rightarrow> (pushed, yielded)))"

fun weight :: "fsnode \<Rightarrow> nat" where
  "weight (Dir e es) = Suc (sum_list (map (\<lambda>p. weight (snd p)) es))"
| "weight _ = 1"

definition listing_weight :: "listing \<Rightarrow> nat" where
  "listing_weight es = sum_list (map (\<lambda>p. weight (snd p)) es)"

definition stack_weight :: "directory list \<Rightarrow> nat" where
  "stack_weight stack = sum_list (map (\<lambda>d. Suc (listing_weight (snd (snd d)))) stack)"

lemma scan_entries_weight:
  "stack_weight (fst (scan_entries recursive current es)) \<le> listing_weight es"
  by (induction es)
    (auto simp: stack_weight_def listing_weight_def split: prod.splits fsnode.splits)

lemma stack_weight_snoc:
  "stack \<noteq> [] \<Longrightarrow>
   stack_weight stack = stack_weight (butlast stack) + Suc (listing_weight (snd (snd (last stack))))"
  by (induction stack) (auto simp: stack_weight_def)

lemma stack_weight_append:
  "stack_weight (xs @ ys) = stack_weight xs + stack_weight ys"
  by (simp add: stack_weight_def)

text \<open>
  The generator \<open>_iter_supported_files\<close>, run to its end: the paths it yields, in
  order, and the exception that ends it, if one does. The stack is a Python list:
  \<open>append\<close> adds at the end and \<open>pop\<close> takes the last element. A
  \<open>PermissionError\<close> of \<open>os.scandir\<close> is caught; any other exception leaves the
  generator.
\<close>

function iter_stack :: "bool \<Rightarrow> directory list \<Rightarrow> path list \<times> pyexn option" where
  "iter_stack recursive stack =
     (if stack = [] then ([], None)
      else
        (case last stack of (current, err, es) \<Rightarrow>
           (case err of
              Some e \<Rightarrow>
                if e = PermissionError then iter_stack recursive (butlast stack)
                else ([], Some e)
            | None \<Rightarrow>
                (case scan_entries recursive current es of (pushed, yielded) \<Rightarrow>
                   (case iter_stack recursive (butlast stack @ pushed) of
                      (ys, r) \<Rightarrow> (yielded @ ys, r))))))"
  by pat_completeness auto
termination
proof (relation "measure (\<lambda>(recursive, stack). stack_weight stack)")
  show "wf (measure (\<lambda>(recursive, stack). stack_weight stack))"
    by simp
next
  fix recursive :: bool and stack :: "directory list"
  assume "stack \<noteq> []"
  then show "((recursive, butlast stack), (recursive, stack))
      \<in> measure (\<lambda>(recursive, stack). stack_weight stack)"
    by (simp add: stack_weight_snoc)
next
  fix recursive :: bool and stack :: "directory list"
    and current rest err es pushed yielded
  assume ne: "stack \<noteq> []" and lst: "(current, rest) = last stack" "(err, es) = rest"
    and sc: "(pushed, yielded) = scan_entries recursive current es"
  have "stack_weight pushed \<le> listing_weight es"
    using scan_entries_weight [of recursive current es] sc [symmetric] by simp
  moreover have "snd (snd (last stack)) = es"
    using lst [symmetric] by simp
  ultimately show "((recursive, butlast stack @ pushed), (recursive, stack))
      \<in> measure (\<lambda>(recursive, stack). stack_weight stack)"
    using ne by (simp add: stack_weight_snoc stack_weight_append)
qed

declare iter_stack.simps [simp del]

definition iter_supported_files ::
  "path \<Rightarrow> pyexn option \<times> listing \<Rightarrow> bool \<Rightarrow> path list \<times> pyexn option" where
  "iter_supported_files start d recursive = iter_stack recursive [(start, d)]"

section \<open>Reading one image\<close>

definition info_or_empty :: "image \<Rightarrow> (string \<rightharpoonup> pyval)" where
  "info_or_empty img = (case img_info img of None \<Rightarrow> Map.empty | Some d \<Rightarrow> d)"

text \<open>
  The rule that \<open>_extract_dpi\<close> applies to the \<open>dpi\<close> tag and to the \<open>resolution\<close> tag:
  of a tuple the first item and the second (the first again when there is no second),
  of any other value the value for both axes.
\<close>

definition float_pair :: "py_builtins \<Rightarrow> pyval \<Rightarrow> pyexn + (real option \<times> real option)" where
  "float_pair bi v =
     (case v of
        PTuple vs \<Rightarrow>
          (case vs of
             [] \<Rightarrow> Inl IndexError
           | x # rest \<Rightarrow>
               bind_exn (py_float bi x) (\<lambda>fx.
               bind_exn (py_float bi (if length vs > 1 then vs ! 1 else x)) (\<lambda>fy.
               Inr (Some fx, Some fy))))
      | _ \<Rightarrow>
          bind_exn (py_float bi v) (\<lambda>fx.
          bind_exn (py_float bi v) (\<lambda>fy.
          Inr (Some fx, Some fy))))"

definition extract_dpi :: "py_builtins \<Rightarrow> image \<Rightarrow> pyexn + (real option \<times> real option)" where
  "extract_dpi bi img =
     (let info = info_or_empty img;
          from_resolution =
            (case info ''resolution'' of
               Some res \<Rightarrow> float_pair bi res
             | None \<Rightarrow> Inr (None, None))
      in case info ''dpi'' of
           Some dpi \<Rightarrow> float_pair bi dpi
         | None \<Rightarrow>
             (case info ''jfif_density'' of
                Some density \<Rightarrow>
                  bind_exn (unpack2 density) (\<lambda>(x, y).
                    let unit = (case info ''jfif_unit'' of Some u \<Rightarrow> u | None \<Rightarrow> PInt 0)
                    in if py_eq_int unit 1 then
                         bind_exn (py_float bi x) (\<lambda>fx.
                         bind_exn (py_float bi y) (\<lambda>fy.
                         Inr (Some fx, Some fy)))
                       else if py_eq_int unit 2 then
                         bind_exn (py_float bi x) (\<lambda>fx.
                         bind_exn (py_float bi y) (\<lambda>fy.
                         Inr (Some (fx * 2.54), Some (fy * 2.54))))
                       else from_resolution)
              | None \<Rightarrow> from_resolution))"

definition describe_color_depth :: "image \<Rightarrow> string" where
  "describe_color_depth img =
     (let mode = (if img_mode img = [] then ''unknown'' else img_mode img);
          bands = (if length (img_bands img) = 0 then 1 else int (length (img_bands img)));
          bits_per_channel =
            (case img_bits img of
               Some b \<Rightarrow> b
             | None \<Rightarrow> (case MODE_DEFAULT_BITS mode of Some b \<Rightarrow> b | None \<Rightarrow> 8));
          total_bits = bits_per_channel * bands
      in str_int total_bits @ '' '' @ bit_word @ '' ('' @ mode @ '')'')"

definition detect_compression :: "py_builtins \<Rightarrow> image \<Rightarrow> string" where
  "detect_compression bi img =
     (let info = info_or_empty img
      in case info ''compression'' of
           Some c \<Rightarrow> py_str bi c
         | None \<Rightarrow>
             (case info ''compression_type'' of
                Some c \<Rightarrow> py_str bi c
              | None \<Rightarrow>
                  (let fmt = upper (case img_format img of Some f \<Rightarrow> f | None \<Rightarrow> [])
                   in case FORMAT_COMPRESSION_HINTS fmt of
                        Some hint \<Rightarrow> hint
                      | None \<Rightarrow> not_available)))"

text \<open>\<open>path.name\<close>: the last component.\<close>

definition path_name :: "path \<Rightarrow> string" where
  "path_name p = (if p = [] then [] else last p)"

text \<open>The classes of \<open>except (UnidentifiedImageError, OSError)\<close>.\<close>

definition caught :: "pyexn \<Rightarrow> bool" where
  "caught e = (e = UnidentifiedImageError \<or> is_OSError e)"

text \<open>
  \<open>_read_image_info\<close>. \<open>Image.open\<close> is a parameter: what Pillow does on a path, an
  exception or an opened image. The result is the exception that leaves the function,
  or what it returns: \<open>None\<close> or a record.
\<close>

definition read_image_info ::
  "py_builtins \<Rightarrow> (path \<Rightarrow> pyexn + image) \<Rightarrow> path \<Rightarrow> pyexn + ImageInfo option" where
  "read_image_info bi image_open p =
     (case
        bind_exn (image_open p) (\<lambda>img.
          case img_size img of (width, height) \<Rightarrow>
            bind_exn (extract_dpi bi img) (\<lambda>(dx, dy).
              Inr \<lparr>path = p,
                   name = path_name p,
                   format =
                     (case img_format img of
                        Some f \<Rightarrow>
                          if f \<noteq> [] then f
                          else (case SUPPORTED_EXTENSIONS (lower (suffix (path_name p))) of
                                  Some g \<Rightarrow> g | None \<Rightarrow> ''Unknown'')
                      | None \<Rightarrow>
                          (case SUPPORTED_EXTENSIONS (lower (suffix (path_name p))) of
                             Some g \<Rightarrow> g | None \<Rightarrow> ''Unknown'')),
                   width_px = width,
                   height_px = height,
                   dpi_x = dx,
                   dpi_y = dy,
                   color_depth = describe_color_depth img,
                   compression = detect_compression bi img\<rparr>))
      of
        Inl e \<Rightarrow> if caught e then Inr None else Inl e
      | Inr info \<Rightarrow> Inr (Some info))"

section \<open>The scan\<close>

text \<open>\<open>min(limit or MAX_FILES, MAX_FILES)\<close>: \<open>None\<close> and \<open>0\<close> are falsy.\<close>

definition target_limit :: "int option \<Rightarrow> int" where
  "target_limit limit =
     min (case limit of None \<Rightarrow> MAX_FILES | Some l \<Rightarrow> if l = 0 then MAX_FILES else l)
         MAX_FILES"

text \<open>
  The \<open>for\<close> loop of \<open>scan_directory\<close> over the generator: \<open>paths\<close> are the paths still
  to be yielded and \<open>fin\<close> is the exception that ends the generator after them, if any.
  The loop takes them one by one, so that after a \<open>break\<close> nothing more is asked of
  the generator.
\<close>

fun scan_loop ::
  "(path \<Rightarrow> pyexn + ImageInfo option) \<Rightarrow> int \<Rightarrow> path list \<Rightarrow> pyexn option \<Rightarrow>
   ImageInfo list \<Rightarrow> pyexn + ImageInfo list" where
  "scan_loop rd cap [] fin result = (case fin of None \<Rightarrow> Inr result | Some e \<Rightarrow> Inl e)"
| "scan_loop rd cap (p # ps) fin result =
     (case rd p of
        Inl e \<Rightarrow> Inl e
      | Inr info \<Rightarrow>
          (let result' = (case info of Some i \<Rightarrow> result @ [i] | None \<Rightarrow> result)
           in if int (length result') \<ge> cap then Inr result'
              else scan_loop rd cap ps fin result'))"

text \<open>
  \<open>scan_directory\<close>. Two parameters stand for the root of this call:
  \<open>expanded\<close> is what \<open>Path(directory).expanduser()\<close> gives, the expanded path or the
  \<open>RuntimeError\<close> it raises when it cannot tell the home directory, and \<open>st\<close> is what
  \<open>stat\<close> does on that path.
\<close>

definition scan_directory ::
  "py_builtins \<Rightarrow> (path \<Rightarrow> pyexn + image) \<Rightarrow> pyexn + path \<Rightarrow> stat_result \<Rightarrow> bool \<Rightarrow>
   int option \<Rightarrow> pyexn + ImageInfo list" where
  "scan_directory bi image_open expanded st recursive limit =
     bind_exn expanded (\<lambda>start.
       bind_exn (path_exists st) (\<lambda>present.
         if \<not> present then Inl FileNotFoundError
         else
           bind_exn (path_is_dir st) (\<lambda>directory.
             if \<not> directory then Inl NotADirectoryError
             else
               (case st of
                  Found (Dir e es) \<Rightarrow>
                    (case iter_supported_files start (e, es) recursive of (paths, fin) \<Rightarrow>
                       scan_loop (read_image_info bi image_open) (target_limit limit) paths fin [])
                | _ \<Rightarrow> Inl NotADirectoryError))))"

section \<open>The specification's rules, written from its words\<close>

text \<open>
  The default table of the specification: the bi-level mode has 1 bit, the 8-bit
  integer modes 8, the 16-bit integer modes 16, the floating-point mode 32, any other
  mode 8. The modes of each class are those the module lists.
\<close>

definition spec_default_bits :: "string \<Rightarrow> int" where
  "spec_default_bits mode =
     (if mode = ''1'' then 1
      else if mode \<in> {''L'', ''P'', ''RGB'', ''RGBA'', ''CMYK'', ''YCbCr'', ''LAB'', ''HSV''} then 8
      else if mode \<in> {''I'', ''I;16''} then 16
      else if mode = ''F'' then 32
      else 8)"

text \<open>
  The label of the specification: the explicit depth field when there is one, the
  default of the mode otherwise, times the band count, as \<open><total_bits> <bit_word> (<mode>)\<close>.
\<close>

definition spec_color_depth :: "int option \<Rightarrow> string \<Rightarrow> nat \<Rightarrow> string" where
  "spec_color_depth depth mode nbands =
     (let bits = (case depth of Some b \<Rightarrow> b | None \<Rightarrow> spec_default_bits mode)
      in str_int (bits * int nbands) @ '' '' @ bit_word @ '' ('' @ mode @ '')'')"

text \<open>The per-format hint table of the specification.\<close>

definition spec_format_hint :: "string \<Rightarrow> string option" where
  "spec_format_hint fmt =
     (if fmt = ''JPEG'' then Some ''JPEG (lossy)''
      else if fmt = ''PNG'' then Some ''Deflate''
      else if fmt = ''GIF'' then Some ''LZW''
      else if fmt = ''BMP'' then Some ''None/RLE''
      else if fmt = ''TIFF'' then Some ''Depends on tag''
      else if fmt = ''PCX'' then Some ''RLE''
      else None)"

text \<open>
  The compression rule of the specification: the compression tag, else the
  compression-type tag, else the hint of the format, else the sentinel.
\<close>

definition spec_compression :: "string option \<Rightarrow> string option \<Rightarrow> string \<Rightarrow> string" where
  "spec_compression tag type_tag fmt =
     (case tag of
        Some t \<Rightarrow> t
      | None \<Rightarrow>
          (case type_tag of
             Some t \<Rightarrow> t
           | None \<Rightarrow> (case spec_format_hint fmt of Some h \<Rightarrow> h | None \<Rightarrow> not_available)))"

text \<open>A tag value that is a number.\<close>

fun number :: "pyval \<Rightarrow> real option" where
  "number (PInt i) = Some (of_int i)"
| "number (PFloat r) = Some r"
| "number _ = None"

text \<open>A pair of numbers as the resolution of the two axes.\<close>

definition both_axes :: "pyval \<Rightarrow> pyval \<Rightarrow> (real option \<times> real option) option" where
  "both_axes a b =
     (case number a of
        Some x \<Rightarrow> (case number b of Some y \<Rightarrow> Some (Some x, Some y) | None \<Rightarrow> None)
      | None \<Rightarrow> None)"

text \<open>
  Steps (a) and (c) of the specification: a pair of numbers, or a single scalar
  applied to both axes (a tuple of one number counts as a scalar).
\<close>

fun spec_broadcast :: "pyval \<Rightarrow> (real option \<times> real option) option" where
  "spec_broadcast (PTuple []) = None"
| "spec_broadcast (PTuple [a]) = both_axes a a"
| "spec_broadcast (PTuple (a # b # rest)) = both_axes a b"
| "spec_broadcast v = both_axes v v"

text \<open>
  The cascade of the specification as ordered lookups: the dpi tag; the density tag
  with unit code 1 (as it is) or 2 (times 2.54), no resolution from it with another
  or no unit code; the resolution tag. The first match wins, and no match is the
  absent resolution.
\<close>

definition spec_dpi_tag :: "(string \<rightharpoonup> pyval) \<Rightarrow> (real option \<times> real option) option" where
  "spec_dpi_tag info = (case info ''dpi'' of Some v \<Rightarrow> spec_broadcast v | None \<Rightarrow> None)"

definition spec_density_tag :: "(string \<rightharpoonup> pyval) \<Rightarrow> (real option \<times> real option) option" where
  "spec_density_tag info =
     (case info ''jfif_density'' of
        Some (PTuple [x, y]) \<Rightarrow>
          (case both_axes x y of
             Some (Some fx, Some fy) \<Rightarrow>
               if info ''jfif_unit'' = Some (PInt 1) then Some (Some fx, Some fy)
               else if info ''jfif_unit'' = Some (PInt 2) then Some (Some (fx * 2.54), Some (fy * 2.54))
               else None
           | _ \<Rightarrow> None)
      | _ \<Rightarrow> None)"

definition spec_resolution_tag :: "(string \<rightharpoonup> pyval) \<Rightarrow> (real option \<times> real option) option" where
  "spec_resolution_tag info =
     (case info ''resolution'' of Some v \<Rightarrow> spec_broadcast v | None \<Rightarrow> None)"

fun first_match :: "'a option list \<Rightarrow> 'a option" where
  "first_match [] = None"
| "first_match (Some r # rs) = Some r"
| "first_match (None # rs) = first_match rs"

definition spec_dpi :: "(string \<rightharpoonup> pyval) \<Rightarrow> real option \<times> real option" where
  "spec_dpi info =
     (case first_match [spec_dpi_tag info, spec_density_tag info, spec_resolution_tag info] of
        Some r \<Rightarrow> r
      | None \<Rightarrow> (None, None))"

text \<open>
  Tags as the decoders write them: numbers or tuples of numbers for \<open>dpi\<close> and
  \<open>resolution\<close>, a pair of numbers for \<open>jfif_density\<close>, an int for \<open>jfif_unit\<close>.
\<close>

definition wf_info :: "(string \<rightharpoonup> pyval) \<Rightarrow> bool" where
  "wf_info info =
     ((case info ''dpi'' of Some v \<Rightarrow> spec_broadcast v \<noteq> None | None \<Rightarrow> True) \<and>
      (case info ''resolution'' of Some v \<Rightarrow> spec_broadcast v \<noteq> None | None \<Rightarrow> True) \<and>
      (case info ''jfif_density'' of
         Some (PTuple [x, y]) \<Rightarrow> both_axes x y \<noteq> None
       | Some _ \<Rightarrow> False
       | None \<Rightarrow> True) \<and>
      (case info ''jfif_unit'' of Some (PInt u) \<Rightarrow> True | Some _ \<Rightarrow> False | None \<Rightarrow> True))"

text \<open>The records of the candidate paths that \<open>_read_image_info\<close> reads, in order.\<close>

definition readable :: "(path \<Rightarrow> pyexn + ImageInfo option) \<Rightarrow> path list \<Rightarrow> ImageInfo list" where
  "readable rd ps = List.map_filter (\<lambda>p. case rd p of Inr (Some i) \<Rightarrow> Some i | _ \<Rightarrow> None) ps"

text \<open>
  A tree in which enumerating a directory raises nothing or a \<open>PermissionError\<close>, at
  every depth.
\<close>

fun denied_only :: "fsnode \<Rightarrow> bool" where
  "denied_only (Dir e es) =
     ((e = None \<or> e = Some PermissionError) \<and> (\<forall>p \<in> set es. denied_only (snd p)))"
| "denied_only File = True"
| "denied_only (Symlink t) = True"
| "denied_only Special = True"

definition dir_denied_only :: "path \<times> pyexn option \<times> listing \<Rightarrow> bool" where
  "dir_denied_only d = denied_only (Dir (fst (snd d)) (snd (snd d)))"

text \<open>The tree without its symlink entries, at every depth.\<close>

fun drop_symlinks :: "fsnode \<Rightarrow> fsnode"
  and drop_symlinks_list :: "listing \<Rightarrow> listing" where
  "drop_symlinks (Dir e es) = Dir e (drop_symlinks_list es)"
| "drop_symlinks File = File"
| "drop_symlinks (Symlink t) = Symlink t"
| "drop_symlinks Special = Special"
| "drop_symlinks_list [] = []"
| "drop_symlinks_list (p # es) =
     (if is_symlink (snd p) then drop_symlinks_list es
      else (fst p, drop_symlinks (snd p)) # drop_symlinks_list es)"

text \<open>
  The tree in which every directory that raises a \<open>PermissionError\<close> is replaced by
  an empty directory, at every depth.
\<close>

fun clear_denied :: "fsnode \<Rightarrow> fsnode"
  and clear_denied_list :: "listing \<Rightarrow> listing" where
  "clear_denied (Dir e es) =
     (if e = Some PermissionError then Dir None [] else Dir e (clear_denied_list es))"
| "clear_denied File = File"
| "clear_denied (Symlink t) = Symlink t"
| "clear_denied Special = Special"
| "clear_denied_list [] = []"
| "clear_denied_list (p # es) = (fst p, clear_denied (snd p)) # clear_denied_list es"

text \<open>The two changes on a directory of the stack.\<close>

definition drop_symlinks_dir :: "directory \<Rightarrow> directory" where
  "drop_symlinks_dir d = (fst d, fst (snd d), drop_symlinks_list (snd (snd d)))"

definition clear_denied_dir :: "directory \<Rightarrow> directory" where
  "clear_denied_dir d =
     (if fst (snd d) = Some PermissionError then (fst d, None, [])
      else (fst d, fst (snd d), clear_denied_list (snd (snd d))))"

section \<open>Example inputs\<close>

text \<open>
  Built-ins for the examples, none of which converts a string to a float or renders
  a float or a tuple.
\<close>

definition ex_builtins :: py_builtins where
  "ex_builtins = \<lparr>float_of_str = (\<lambda>s. Inl ValueError), str_other = (\<lambda>v. ''?'')\<rparr>"

text \<open>An RGB PNG of 640 by 480 pixels with no tag in \<open>img.info\<close>.\<close>

definition ex_rgb :: image where
  "ex_rgb = \<lparr>img_format = Some ''PNG'', img_size = (640, 480), img_mode = ''RGB'',
             img_bands = [''R'', ''G'', ''B''], img_bits = None, img_info = Some Map.empty\<rparr>"

text \<open>A JPEG whose JFIF header gives a density of 96 by 96 dots per centimetre.\<close>

definition ex_jfif :: image where
  "ex_jfif = \<lparr>img_format = Some ''JPEG'', img_size = (800, 600), img_mode = ''RGB'',
              img_bands = [''R'', ''G'', ''B''], img_bits = Some 8,
              img_info = Some [''jfif_density'' \<mapsto> PTuple [PInt 96, PInt 96],
                               ''jfif_unit'' \<mapsto> PInt 2]\<rparr>"

text \<open>An image of a format that the hint table does not list, with no tag.\<close>

definition ex_webp :: image where
  "ex_webp = \<lparr>img_format = Some ''WEBP'', img_size = (32, 32), img_mode = ''RGBA'',
              img_bands = [''R'', ''G'', ''B'', ''A''], img_bits = None, img_info = Some Map.empty\<rparr>"

text \<open>A TIFF that names its compression.\<close>

definition ex_tiff :: image where
  "ex_tiff = \<lparr>img_format = Some ''TIFF'', img_size = (100, 50), img_mode = ''L'',
              img_bands = [''L''], img_bits = None,
              img_info = Some [''compression'' \<mapsto> PStr ''tiff_lzw'',
                               ''dpi'' \<mapsto> PTuple [PFloat 300, PFloat 300]]\<rparr>"

text \<open>A decoder that opens every path as the RGB PNG, and the record read from it.\<close>

definition ex_open :: "path \<Rightarrow> pyexn + image" where
  "ex_open p = Inr ex_rgb"

definition ex_rgb_record :: "path \<Rightarrow> ImageInfo" where
  "ex_rgb_record p =
     \<lparr>path = p, name = path_name p, format = ''PNG'', width_px = 640, height_px = 480,
      dpi_x = None, dpi_y = None, color_depth = ''24 '' @ bit_word @ '' (RGB)'',
      compression = ''Deflate''\<rparr>"


text \<open>A decoder that refuses every path as a decompression bomb.\<close>

definition ex_open_bomb :: "path \<Rightarrow> pyexn + image" where
  "ex_open_bomb p = Inl DecompressionBombError"

text \<open>A decoder whose images carry an empty tuple as their dpi tag.\<close>

definition ex_open_bad_dpi :: "path \<Rightarrow> pyexn + image" where
  "ex_open_bad_dpi p = Inr (ex_rgb\<lparr>img_info := Some [''dpi'' \<mapsto> PTuple []]\<rparr>)"

text \<open>A decoder that fails on every path with an \<open>OSError\<close>.\<close>

definition ex_open_unreadable :: "path \<Rightarrow> pyexn + image" where
  "ex_open_unreadable p = Inl OSError"

text \<open>A directory with one image, and one with two.\<close>

definition ex_photos :: fsnode where
  "ex_photos = Dir None [(''a.png'', File)]"

definition ex_album :: fsnode where
  "ex_album = Dir None [(''a.png'', File), (''b.JPG'', File), (''notes.txt'', File)]"

text \<open>A decoder that may not read \<open>a.png\<close> of the album and opens every other path.\<close>

definition ex_open_mixed :: "path \<Rightarrow> pyexn + image" where
  "ex_open_mixed p = (if p = [''album'', ''a.png''] then Inl PermissionError else Inr ex_rgb)"

text \<open>A decoder that may not read \<open>a.png\<close> of the album and refuses every other path.\<close>

definition ex_open_denied_then_bomb :: "path \<Rightarrow> pyexn + image" where
  "ex_open_denied_then_bomb p =
     (if p = [''album'', ''a.png''] then Inl PermissionError else Inl DecompressionBombError)"


text \<open>
  A tree with an image, a link to an image, a link to a directory, a directory that
  may not be enumerated and a readable subdirectory.
\<close>

definition ex_tree :: listing where
  "ex_tree =
     [(''a.png'', File),
      (''link.png'', Symlink [''elsewhere'', ''b.png'']),
      (''loop'', Symlink [''photos'']),
      (''locked'', Dir (Some PermissionError) [(''hidden.png'', File)]),
      (''sub'', Dir None [(''b.JPG'', File), (''notes.txt'', File)])]"

section \<open>Colour depth\<close>

lemma default_bits_spec:
  "(case MODE_DEFAULT_BITS mode of Some b \<Rightarrow> b | None \<Rightarrow> 8) = spec_default_bits mode"
  by (simp add: MODE_DEFAULT_BITS_def spec_default_bits_def)

text \<open>
  C8: for an opened image (its mode is not empty and it has at least one band) the
  colour depth label is the one of the specification: bits per channel from the
  \<open>bits\<close> field when the image has one, from the default table otherwise, times the
  number of bands, rendered as \<open><total_bits> <bit_word> (<mode>)\<close>. An RGB image of
  three bands with 8 bits per channel gets the label for 24 bits and mode RGB.
\<close>

theorem color_depth_label:
  "(img_mode img \<noteq> [] \<and> img_bands img \<noteq> [] \<longrightarrow>
      describe_color_depth img =
        spec_color_depth (img_bits img) (img_mode img) (length (img_bands img))) \<and>
   (img_mode img = ''RGB'' \<and> length (img_bands img) = 3 \<and>
      (img_bits img = None \<or> img_bits img = Some 8) \<longrightarrow>
      describe_color_depth img = ''24 '' @ bit_word @ '' (RGB)'')"
proof (intro conjI impI)
  assume "img_mode img \<noteq> [] \<and> img_bands img \<noteq> []"
  then show "describe_color_depth img =
        spec_color_depth (img_bits img) (img_mode img) (length (img_bands img))"
    by (simp add: describe_color_depth_def spec_color_depth_def default_bits_spec Let_def
        split: option.split)
next
  assume a: "img_mode img = ''RGB'' \<and> length (img_bands img) = 3 \<and>
      (img_bits img = None \<or> img_bits img = Some 8)"
  have s: "str_int 24 = ''24''"
    by (simp add: str_int_def str_nat.simps)
  from a show "describe_color_depth img = ''24 '' @ bit_word @ '' (RGB)''"
    by (auto simp: describe_color_depth_def MODE_DEFAULT_BITS_def Let_def s)
qed

theorem color_depth_label_witness:
  "describe_color_depth ex_rgb = spec_color_depth None ''RGB'' 3 \<and>
   describe_color_depth ex_rgb = ''24 '' @ bit_word @ '' (RGB)''"
proof -
  have pre: "img_mode ex_rgb \<noteq> [] \<and> img_bands ex_rgb \<noteq> []"
    by (simp add: ex_rgb_def)
  have vals: "img_mode ex_rgb = ''RGB''" "length (img_bands ex_rgb) = 3" "img_bits ex_rgb = None"
    by (simp_all add: ex_rgb_def)
  show ?thesis
    using color_depth_label [of ex_rgb] pre by (auto simp: vals)
qed

section \<open>Resolution\<close>

lemma number_float: "number v = Some x \<Longrightarrow> py_float bi v = Inr x"
  by (cases v) auto

lemma both_axes_float:
  "both_axes a b = Some r \<Longrightarrow>
   \<exists>x y. r = (Some x, Some y) \<and> py_float bi a = Inr x \<and> py_float bi b = Inr y"
  by (auto simp: both_axes_def number_float split: option.splits)

lemma float_pair_spec: "spec_broadcast v = Some r \<Longrightarrow> float_pair bi v = Inr r"
proof (cases v)
  case (PTuple vs)
  assume r: "spec_broadcast v = Some r"
  show ?thesis
  proof (cases vs)
    case Nil
    with r PTuple show ?thesis by simp
  next
    case (Cons a rest)
    show ?thesis
    proof (cases rest)
      case Nil
      with r PTuple Cons show ?thesis
        using both_axes_float [of a a r bi] by (auto simp: float_pair_def bind_exn_def)
    next
      case (Cons b more)
      with r PTuple \<open>vs = a # rest\<close> show ?thesis
        using both_axes_float [of a b r bi] by (auto simp: float_pair_def bind_exn_def)
    qed
  qed
next
  case PNone
  assume "spec_broadcast v = Some r"
  with PNone show ?thesis by (simp add: both_axes_def)
next
  case (PInt i)
  assume "spec_broadcast v = Some r"
  with PInt show ?thesis by (auto simp: float_pair_def bind_exn_def both_axes_def)
next
  case (PFloat x)
  assume "spec_broadcast v = Some r"
  with PFloat show ?thesis by (auto simp: float_pair_def bind_exn_def both_axes_def)
next
  case (PStr str)
  assume "spec_broadcast v = Some r"
  with PStr show ?thesis by (simp add: both_axes_def)
qed

lemma extract_dpi_spec:
  assumes "wf_info (info_or_empty img)"
  shows "extract_dpi bi img = Inr (spec_dpi (info_or_empty img))"
proof (cases "info_or_empty img ''dpi''")
  case (Some v)
  with assms obtain r where r: "spec_broadcast v = Some r"
    by (auto simp: wf_info_def)
  with Some show ?thesis
    by (simp add: extract_dpi_def spec_dpi_def spec_dpi_tag_def float_pair_spec Let_def)
next
  case nodpi: None
  have tail: "(case info_or_empty img ''resolution'' of
                 Some res \<Rightarrow> float_pair bi res
               | None \<Rightarrow> Inr (None, None))
      = Inr (case first_match [spec_resolution_tag (info_or_empty img)] of
               Some r \<Rightarrow> r | None \<Rightarrow> (None, None))"
  proof (cases "info_or_empty img ''resolution''")
    case None
    then show ?thesis by (simp add: spec_resolution_tag_def)
  next
    case (Some v)
    with assms obtain r where "spec_broadcast v = Some r"
      by (auto simp: wf_info_def)
    with Some show ?thesis
      by (simp add: spec_resolution_tag_def float_pair_spec)
  qed
  show ?thesis
  proof (cases "info_or_empty img ''jfif_density''")
    case None
    with nodpi tail show ?thesis
      by (simp add: extract_dpi_def spec_dpi_def spec_dpi_tag_def spec_density_tag_def Let_def)
  next
    case (Some d)
    with assms obtain x y r where d: "d = PTuple [x, y]" and xy: "both_axes x y = Some r"
      by (auto simp: wf_info_def split: pyval.splits list.splits)
    from both_axes_float [OF xy, of bi] obtain fx fy where
      r: "r = (Some fx, Some fy)" and fx: "py_float bi x = Inr fx" and fy: "py_float bi y = Inr fy"
      by blast
    from assms have unit: "info_or_empty img ''jfif_unit'' = None \<or>
        (\<exists>u. info_or_empty img ''jfif_unit'' = Some (PInt u))"
      by (auto simp: wf_info_def split: option.splits pyval.splits)
    from unit nodpi Some d xy r fx fy tail show ?thesis
      by (auto simp: extract_dpi_def spec_dpi_def spec_dpi_tag_def spec_density_tag_def
          Let_def bind_exn_def)
  qed
qed

text \<open>
  C5: on an image whose tags are well formed, \<open>_extract_dpi\<close> returns what the cascade
  of the specification gives: the dpi tag first, else the density tag with unit code
  1 or 2, else the resolution tag, else no resolution. A density of (96, 96) with unit
  code 2 and no dpi tag gives \<open>96 * 2.54\<close> on both axes, and an image with none of the
  three tags gives \<open>None\<close> on both axes, which is not the resolution \<open>(0, 0)\<close>.
\<close>

theorem extract_dpi_cascade:
  "(wf_info (info_or_empty img) \<longrightarrow>
      extract_dpi bi img = Inr (spec_dpi (info_or_empty img))) \<and>
   (info_or_empty img ''dpi'' = None \<and>
    info_or_empty img ''jfif_density'' = Some (PTuple [PInt 96, PInt 96]) \<and>
    info_or_empty img ''jfif_unit'' = Some (PInt 2) \<longrightarrow>
      extract_dpi bi img = Inr (Some (96 * 2.54), Some (96 * 2.54))) \<and>
   (info_or_empty img ''dpi'' = None \<and> info_or_empty img ''jfif_density'' = None \<and>
    info_or_empty img ''resolution'' = None \<longrightarrow>
      extract_dpi bi img = Inr (None, None) \<and>
      extract_dpi bi img \<noteq> Inr (Some 0, Some 0))"
proof (intro conjI impI)
  assume "wf_info (info_or_empty img)"
  then show "extract_dpi bi img = Inr (spec_dpi (info_or_empty img))"
    by (rule extract_dpi_spec)
next
  assume "info_or_empty img ''dpi'' = None \<and>
    info_or_empty img ''jfif_density'' = Some (PTuple [PInt 96, PInt 96]) \<and>
    info_or_empty img ''jfif_unit'' = Some (PInt 2)"
  then show "extract_dpi bi img = Inr (Some (96 * 2.54), Some (96 * 2.54))"
    by (simp add: extract_dpi_def Let_def bind_exn_def)
next
  assume a: "info_or_empty img ''dpi'' = None \<and> info_or_empty img ''jfif_density'' = None \<and>
    info_or_empty img ''resolution'' = None"
  then show "extract_dpi bi img = Inr (None, None)"
    by (simp add: extract_dpi_def Let_def)
  from a show "extract_dpi bi img \<noteq> Inr (Some 0, Some 0)"
    by (simp add: extract_dpi_def Let_def)
qed

theorem extract_dpi_cascade_witness:
  "wf_info (info_or_empty ex_jfif) \<and>
   extract_dpi ex_builtins ex_jfif = Inr (spec_dpi (info_or_empty ex_jfif)) \<and>
   extract_dpi ex_builtins ex_jfif = Inr (Some (96 * 2.54), Some (96 * 2.54)) \<and>
   extract_dpi ex_builtins ex_rgb = Inr (None, None)"
proof -
  have wf: "wf_info (info_or_empty ex_jfif)"
    by (simp add: wf_info_def info_or_empty_def ex_jfif_def both_axes_def)
  have tags: "info_or_empty ex_jfif ''dpi'' = None \<and>
      info_or_empty ex_jfif ''jfif_density'' = Some (PTuple [PInt 96, PInt 96]) \<and>
      info_or_empty ex_jfif ''jfif_unit'' = Some (PInt 2)"
    by (simp add: info_or_empty_def ex_jfif_def)
  have none: "info_or_empty ex_rgb ''dpi'' = None \<and> info_or_empty ex_rgb ''jfif_density'' = None \<and>
      info_or_empty ex_rgb ''resolution'' = None"
    by (simp add: info_or_empty_def ex_rgb_def)
  show ?thesis
    using extract_dpi_cascade [of ex_jfif ex_builtins] extract_dpi_cascade [of ex_rgb ex_builtins]
      wf tags none
    by blast
qed

section \<open>Compression\<close>

lemma format_hint_spec: "FORMAT_COMPRESSION_HINTS fmt = spec_format_hint fmt"
  by (simp add: FORMAT_COMPRESSION_HINTS_def spec_format_hint_def)

text \<open>
  C9: the compression field is the compression tag when \<open>img.info\<close> has one, else the
  compression-type tag, else the hint of the (upper-cased) format name, else the
  sentinel; a tag that is a string is taken as it is. A PNG with neither tag gets
  \<open>Deflate\<close>, and a format that the hint table does not list, with neither tag, gets
  the sentinel.
\<close>

theorem detect_compression_cascade:
  "detect_compression bi img =
     spec_compression (map_option (py_str bi) (info_or_empty img ''compression''))
       (map_option (py_str bi) (info_or_empty img ''compression_type''))
       (upper (case img_format img of Some f \<Rightarrow> f | None \<Rightarrow> [])) \<and>
   (info_or_empty img ''compression'' = Some (PStr s) \<longrightarrow> detect_compression bi img = s) \<and>
   (info_or_empty img ''compression'' = None \<and> info_or_empty img ''compression_type'' = None \<and>
    img_format img = Some ''PNG'' \<longrightarrow> detect_compression bi img = ''Deflate'') \<and>
   (info_or_empty img ''compression'' = None \<and> info_or_empty img ''compression_type'' = None \<and>
    spec_format_hint (upper (case img_format img of Some f \<Rightarrow> f | None \<Rightarrow> [])) = None \<longrightarrow>
      detect_compression bi img = not_available)"
proof (intro conjI impI)
  show "detect_compression bi img =
     spec_compression (map_option (py_str bi) (info_or_empty img ''compression''))
       (map_option (py_str bi) (info_or_empty img ''compression_type''))
       (upper (case img_format img of Some f \<Rightarrow> f | None \<Rightarrow> []))"
    by (simp add: detect_compression_def spec_compression_def format_hint_spec Let_def
        split: option.split)
next
  assume "info_or_empty img ''compression'' = Some (PStr s)"
  then show "detect_compression bi img = s"
    by (simp add: detect_compression_def Let_def)
next
  assume "info_or_empty img ''compression'' = None \<and>
    info_or_empty img ''compression_type'' = None \<and> img_format img = Some ''PNG''"
  moreover have "upper ''PNG'' = ''PNG''"
    by (simp add: upper_def upper_char_def ascii_lower_def ascii_upper_def)
  ultimately show "detect_compression bi img = ''Deflate''"
    by (simp add: detect_compression_def Let_def FORMAT_COMPRESSION_HINTS_def)
next
  assume "info_or_empty img ''compression'' = None \<and>
    info_or_empty img ''compression_type'' = None \<and>
    spec_format_hint (upper (case img_format img of Some f \<Rightarrow> f | None \<Rightarrow> [])) = None"
  then show "detect_compression bi img = not_available"
    by (simp add: detect_compression_def Let_def format_hint_spec)
qed

theorem detect_compression_cascade_witness:
  "detect_compression ex_builtins ex_tiff = ''tiff_lzw'' \<and>
   detect_compression ex_builtins ex_rgb = ''Deflate'' \<and>
   detect_compression ex_builtins ex_webp = not_available"
proof -
  have tiff: "info_or_empty ex_tiff ''compression'' = Some (PStr ''tiff_lzw'')"
    by (simp add: info_or_empty_def ex_tiff_def)
  have png: "info_or_empty ex_rgb ''compression'' = None \<and>
      info_or_empty ex_rgb ''compression_type'' = None \<and> img_format ex_rgb = Some ''PNG''"
    by (simp add: info_or_empty_def ex_rgb_def)
  have "upper ''WEBP'' = ''WEBP''"
    by (simp add: upper_def upper_char_def ascii_lower_def ascii_upper_def)
  then have webp: "info_or_empty ex_webp ''compression'' = None \<and>
      info_or_empty ex_webp ''compression_type'' = None \<and>
      spec_format_hint (upper (case img_format ex_webp of Some f \<Rightarrow> f | None \<Rightarrow> [])) = None"
    by (simp add: info_or_empty_def ex_webp_def spec_format_hint_def)
  show ?thesis
    using detect_compression_cascade [of ex_builtins ex_tiff "''tiff_lzw''"]
      detect_compression_cascade [of ex_builtins ex_rgb "''x''"]
      detect_compression_cascade [of ex_builtins ex_webp "''x''"]
      tiff png webp
    by blast
qed

section \<open>The scan loop\<close>

lemma target_limit_le: "target_limit limit \<le> MAX_FILES"
  by (simp add: target_limit_def)

lemma target_limit_falsy: "limit = None \<or> limit = Some 0 \<Longrightarrow> target_limit limit = MAX_FILES"
  by (auto simp: target_limit_def)

lemma target_limit_pos: "1 \<le> l \<Longrightarrow> target_limit (Some l) = min l MAX_FILES"
  by (auto simp: target_limit_def)

lemma scan_loop_bound:
  "scan_loop rd cap ps fin result = Inr rs \<Longrightarrow> int (length result) < cap \<or> result = [] \<Longrightarrow>
   int (length rs) \<le> max 1 cap"
proof (induction ps arbitrary: result)
  case Nil
  then show ?case by (auto split: option.splits)
next
  case (Cons p ps)
  then show ?case
    by (auto simp: Let_def split: sum.splits option.splits if_splits)
qed

lemma scan_loop_take:
  "\<forall>p \<in> set ps. \<exists>i. rd p = Inr i \<Longrightarrow> int (length result) < cap \<Longrightarrow>
   scan_loop rd cap ps None result = Inr (take (nat cap) (result @ readable rd ps))"
proof (induction ps arbitrary: result)
  case Nil
  then show ?case by (simp add: readable_def List.map_filter_simps)
next
  case (Cons p ps)
  from Cons.prems obtain i where i: "rd p = Inr i" by auto
  show ?case
  proof (cases i)
    case None
    with i Cons show ?thesis
      by (simp add: readable_def List.map_filter_simps)
  next
    case (Some r)
    show ?thesis
    proof (cases "int (length (result @ [r])) \<ge> cap")
      case True
      with Cons.prems have "nat cap = length (result @ [r])" by simp
      with i Some True show ?thesis
        by (simp add: readable_def List.map_filter_simps)
    next
      case False
      then have "int (length (result @ [r])) < cap" by simp
      with Cons.IH [of "result @ [r]"] Cons.prems i Some False show ?thesis
        by (simp add: readable_def List.map_filter_simps)
    qed
  qed
qed



lemma read_image_info_caught:
  "image_open p = Inl e \<Longrightarrow> caught e \<Longrightarrow> read_image_info bi image_open p = Inr None"
  by (simp add: read_image_info_def bind_exn_def)

lemma read_image_info_raises:
  "read_image_info bi image_open p = Inl e \<Longrightarrow> \<not> caught e"
  by (auto simp: read_image_info_def bind_exn_def split: sum.splits prod.splits if_splits)

lemma scan_loop_skip:
  "rd p = Inr None \<Longrightarrow> int (length result) < cap \<Longrightarrow>
   scan_loop rd cap (p # ps) fin result = scan_loop rd cap ps fin result"
  by simp

lemma scan_directory_dir:
  "scan_directory bi image_open (Inr start) (Found (Dir e es)) recursive limit =
   (case iter_supported_files start (e, es) recursive of (paths, fin) \<Rightarrow>
      scan_loop (read_image_info bi image_open) (target_limit limit) paths fin [])"
  by (simp add: scan_directory_def path_exists_def path_is_dir_def bind_exn_def)

lemma scan_directory_Inr:
  assumes "scan_directory bi image_open expanded st recursive limit = Inr rs"
  shows "\<exists>start e es. expanded = Inr start \<and> st = Found (Dir e es)"
proof (cases expanded)
  case (Inl ex)
  with assms show ?thesis
    by (simp add: scan_directory_def bind_exn_def)
next
  case (Inr start)
  show ?thesis
  proof (cases st)
    case (Found nd)
    with assms Inr show ?thesis
      by (cases nd) (simp_all add: scan_directory_def bind_exn_def path_exists_def path_is_dir_def)
  next
    case NotFound
    with assms Inr show ?thesis
      by (simp add: scan_directory_def bind_exn_def path_exists_def)
  next
    case (StatError ex)
    with assms Inr show ?thesis
      by (simp add: scan_directory_def bind_exn_def path_exists_def)
  qed
qed

lemma scan_directory_bound:
  assumes "scan_directory bi image_open expanded st recursive limit = Inr rs"
  shows "int (length rs) \<le> max 1 (target_limit limit)"
proof -
  from scan_directory_Inr [OF assms] obtain start e es
    where node: "expanded = Inr start" "st = Found (Dir e es)"
    by blast
  obtain paths fin where w: "iter_supported_files start (e, es) recursive = (paths, fin)"
    by (cases "iter_supported_files start (e, es) recursive")
  from assms node w have "scan_loop (read_image_info bi image_open) (target_limit limit) paths fin [] = Inr rs"
    by (simp add: scan_directory_dir)
  then show ?thesis
    by (rule scan_loop_bound) simp
qed

section \<open>Evaluating the examples\<close>

lemma lower_suffix_examples:
  "lower (suffix ''a.png'') = ''.png''" "lower (suffix ''b.JPG'') = ''.jpg''"
  "lower (suffix ''notes.txt'') = ''.txt''"
  by (simp_all add: suffix_def lower_def lower_char_def ascii_upper_def ascii_lower_def)

lemma supported_examples:
  "''.png'' \<in> dom SUPPORTED_EXTENSIONS" "''.jpg'' \<in> dom SUPPORTED_EXTENSIONS"
  "''.txt'' \<notin> dom SUPPORTED_EXTENSIONS"
  by (simp_all add: SUPPORTED_EXTENSIONS_def dom_def)

lemma walk_photos:
  "iter_supported_files [''photos''] (None, [(''a.png'', File)]) recursive
     = ([[''photos'', ''a.png'']], None)"
  by (simp add: iter_supported_files_def iter_stack.simps lower_suffix_examples
      supported_examples)

lemma walk_album:
  "iter_supported_files [''album'']
       (None, [(''a.png'', File), (''b.JPG'', File), (''notes.txt'', File)]) recursive
     = ([[''album'', ''a.png''], [''album'', ''b.JPG'']], None)"
  by (simp add: iter_supported_files_def iter_stack.simps lower_suffix_examples
      supported_examples)

lemma describe_ex_rgb: "describe_color_depth ex_rgb = ''24 '' @ bit_word @ '' (RGB)''"
  by (simp add: describe_color_depth_def ex_rgb_def MODE_DEFAULT_BITS_def Let_def str_int_def
      str_nat.simps)

lemma compression_ex_rgb: "detect_compression bi ex_rgb = ''Deflate''"
  by (simp add: detect_compression_def ex_rgb_def info_or_empty_def Let_def upper_def
      upper_char_def ascii_lower_def ascii_upper_def FORMAT_COMPRESSION_HINTS_def)

lemma dpi_ex_rgb: "extract_dpi bi ex_rgb = Inr (None, None)"
  by (simp add: extract_dpi_def ex_rgb_def info_or_empty_def Let_def)

lemma read_ex_open: "read_image_info bi ex_open p = Inr (Some (ex_rgb_record p))"
  using describe_ex_rgb compression_ex_rgb [of bi] dpi_ex_rgb [of bi]
  by (simp add: read_image_info_def ex_open_def bind_exn_def ex_rgb_record_def)
    (simp add: ex_rgb_def)



section \<open>The limit\<close>

text \<open>
  C1, as the specification states it, fails for the limit 0: on a directory with one
  image the scan with limit 0 returns one record, more than \<open>min(0, 100000)\<close>.
\<close>

theorem scan_limit_zero_counterexample:
  "scan_directory ex_builtins ex_open (Inr [''photos'']) (Found ex_photos) True (Some 0)
     = Inr [ex_rgb_record [''photos'', ''a.png'']] \<and>
   \<not> int (length [ex_rgb_record [''photos'', ''a.png'']]) \<le> min 0 100000"
  by (simp add: scan_directory_dir ex_photos_def walk_photos read_ex_open target_limit_def
      MAX_FILES_def)

text \<open>
  C1, amended: a scan that returns normally returns at most 100000 records, and at
  most \<open>min(limit, 100000)\<close> records when the requested limit is 1 or more. In
  general the bound is the effective limit \<open>min(limit or 100000, 100000)\<close>, or one
  record when that is below 1.
\<close>

theorem scan_length_bound:
  "scan_directory bi image_open expanded st recursive limit = Inr rs \<Longrightarrow>
   int (length rs) \<le> max 1 (target_limit limit) \<and>
   int (length rs) \<le> 100000 \<and>
   (\<forall>l. limit = Some l \<and> 1 \<le> l \<longrightarrow> int (length rs) \<le> min l 100000)"
proof -
  assume "scan_directory bi image_open expanded st recursive limit = Inr rs"
  then have b: "int (length rs) \<le> max 1 (target_limit limit)"
    by (rule scan_directory_bound)
  have "max 1 (target_limit limit) \<le> 100000"
    using target_limit_le [of limit] by (simp add: MAX_FILES_def)
  with b have c: "int (length rs) \<le> 100000"
    by linarith
  have d: "\<forall>l. limit = Some l \<and> 1 \<le> l \<longrightarrow> int (length rs) \<le> min l 100000"
    using b by (auto simp: target_limit_pos MAX_FILES_def)
  from b c d show ?thesis by blast
qed

theorem scan_length_bound_witness:
  "scan_directory ex_builtins ex_open (Inr [''album'']) (Found ex_album) True (Some 1)
     = Inr [ex_rgb_record [''album'', ''a.png'']] \<and>
   int (length [ex_rgb_record [''album'', ''a.png'']]) \<le> min 1 100000"
proof -
  have run: "scan_directory ex_builtins ex_open (Inr [''album'']) (Found ex_album) True (Some 1)
     = Inr [ex_rgb_record [''album'', ''a.png'']]"
    by (simp add: scan_directory_dir ex_album_def walk_album read_ex_open target_limit_def
        MAX_FILES_def)
  from scan_length_bound [OF run] show ?thesis
    using run by simp
qed

text \<open>
  C10: with the limit 0 or \<open>None\<close> the effective limit is the cap of 100000. When the
  root is a directory, the walk ends without an exception and no read of a candidate
  raises, the scan returns the records of the readable candidates up to the cap:
  \<open>min(n, 100000)\<close> records for \<open>n\<close> readable candidates, so not the empty list when
  there is one.
\<close>

theorem scan_falsy_limit:
  assumes "limit = None \<or> limit = Some 0"
    and "iter_supported_files start (e, es) recursive = (paths, None)"
    and "\<forall>p \<in> set paths. \<exists>i. read_image_info bi image_open p = Inr i"
  shows "target_limit limit = 100000 \<and>
    scan_directory bi image_open (Inr start) (Found (Dir e es)) recursive limit
      = Inr (take 100000 (readable (read_image_info bi image_open) paths)) \<and>
    length (take 100000 (readable (read_image_info bi image_open) paths))
      = min (length (readable (read_image_info bi image_open) paths)) 100000 \<and>
    (readable (read_image_info bi image_open) paths \<noteq> [] \<longrightarrow>
       take 100000 (readable (read_image_info bi image_open) paths) \<noteq> [])"
proof -
  have tl: "target_limit limit = 100000"
    using assms(1) by (simp add: target_limit_falsy MAX_FILES_def)
  have "scan_loop (read_image_info bi image_open) 100000 paths None []
      = Inr (take (nat 100000) ([] @ readable (read_image_info bi image_open) paths))"
    using assms(3) by (intro scan_loop_take) simp_all
  then show ?thesis
    using tl assms(2) by (simp add: scan_directory_dir)
qed

theorem scan_falsy_limit_witness:
  "scan_directory ex_builtins ex_open (Inr [''album'']) (Found ex_album) True (Some 0)
     = Inr [ex_rgb_record [''album'', ''a.png''], ex_rgb_record [''album'', ''b.JPG'']] \<and>
   scan_directory ex_builtins ex_open (Inr [''album'']) (Found ex_album) True None
     = Inr [ex_rgb_record [''album'', ''a.png''], ex_rgb_record [''album'', ''b.JPG'']]"
proof -
  have w: "iter_supported_files [''album'']
       (None, [(''a.png'', File), (''b.JPG'', File), (''notes.txt'', File)]) True
     = ([[''album'', ''a.png''], [''album'', ''b.JPG'']], None)"
    by (rule walk_album)
  have r: "\<forall>p \<in> set [[''album'', ''a.png''], [''album'', ''b.JPG'']].
      \<exists>i. read_image_info ex_builtins ex_open p = Inr i"
    by (simp add: read_ex_open)
  have rd: "readable (read_image_info ex_builtins ex_open)
        [[''album'', ''a.png''], [''album'', ''b.JPG'']]
      = [ex_rgb_record [''album'', ''a.png''], ex_rgb_record [''album'', ''b.JPG'']]"
    by (simp add: readable_def List.map_filter_simps read_ex_open)
  show ?thesis
    using scan_falsy_limit [OF _ w r, of "Some 0"] scan_falsy_limit [OF _ w r, of None]
    by (simp add: rd ex_album_def)
qed

section \<open>The walk, step by step\<close>

lemma iter_stack_Nil: "iter_stack recursive [] = ([], None)"
  by (simp add: iter_stack.simps)

lemma iter_stack_denied:
  "iter_stack recursive (stack @ [(current, Some PermissionError, es)]) = iter_stack recursive stack"
  by (subst iter_stack.simps) simp

lemma iter_stack_error:
  "e \<noteq> PermissionError \<Longrightarrow>
   iter_stack recursive (stack @ [(current, Some e, es)]) = ([], Some e)"
  by (subst iter_stack.simps) simp

lemma iter_stack_listed:
  "iter_stack recursive (stack @ [(current, None, es)]) =
     (snd (scan_entries recursive current es)
        @ fst (iter_stack recursive (stack @ fst (scan_entries recursive current es))),
      snd (iter_stack recursive (stack @ fst (scan_entries recursive current es))))"
  by (subst iter_stack.simps) (simp split: prod.splits)

lemma iter_stack_cases:
  assumes "P []"
    and "\<And>stack current es. P stack \<Longrightarrow> P (stack @ [(current, Some PermissionError, es)])"
    and "\<And>stack current e es. e \<noteq> PermissionError \<Longrightarrow> P (stack @ [(current, Some e, es)])"
    and "\<And>stack current es.
           P (stack @ fst (scan_entries recursive current es)) \<Longrightarrow> P (stack @ [(current, None, es)])"
  shows "P stack"
proof (induction "stack_weight stack" arbitrary: stack rule: less_induct)
  case less
  show ?case
  proof (cases stack rule: rev_cases)
    case Nil
    with assms(1) show ?thesis by simp
  next
    case (snoc rest d)
    obtain current err es where d: "d = (current, err, es)"
      by (cases d)
    show ?thesis
    proof (cases err)
      case None
      have "stack_weight (rest @ fst (scan_entries recursive current es)) < stack_weight stack"
        using scan_entries_weight [of recursive current es]
        by (simp add: snoc d stack_weight_append) (simp add: stack_weight_def)
      then have "P (rest @ fst (scan_entries recursive current es))"
        by (rule less)
      then show ?thesis
        unfolding snoc d None by (rule assms(4))
    next
      case (Some e)
      show ?thesis
      proof (cases "e = PermissionError")
        case True
        have "stack_weight rest < stack_weight stack"
          by (simp add: snoc stack_weight_append) (simp add: stack_weight_def)
        then have "P rest" by (rule less)
        then show ?thesis
          unfolding snoc d Some True by (rule assms(2))
      next
        case False
        then show ?thesis
          unfolding snoc d Some by (rule assms(3))
      qed
    qed
  qed
qed

lemma scan_entries_denied_only:
  "\<forall>p \<in> set es. denied_only (snd p) \<Longrightarrow>
   \<forall>d \<in> set (fst (scan_entries recursive current es)). dir_denied_only d"
proof (induction es)
  case Nil
  show ?case by simp
next
  case (Cons p es)
  obtain nm nd where p: "p = (nm, nd)"
    by (cases p)
  from Cons have IH: "\<forall>d \<in> set (fst (scan_entries recursive current es)). dir_denied_only d"
    by simp
  from Cons.prems p have nd: "denied_only nd"
    by simp
  show ?case
  proof (cases nd)
    case (Dir e sub)
    with nd have "dir_denied_only (current @ [nm], e, sub)"
      by (simp add: dir_denied_only_def)
    with IH Dir p show ?thesis
      by (simp split: prod.splits)
  next
    case File
    with IH p show ?thesis by (simp split: prod.splits)
  next
    case (Symlink t)
    with IH p show ?thesis by (simp split: prod.splits)
  next
    case Special
    with IH p show ?thesis by (simp split: prod.splits)
  qed
qed

lemma iter_stack_no_exception:
  "\<forall>d \<in> set stack. dir_denied_only d \<Longrightarrow> snd (iter_stack recursive stack) = None"
proof (induction stack rule: iter_stack_cases [where recursive = recursive])
  case 1
  show ?case by (simp add: iter_stack_Nil)
next
  case (2 stack current es)
  then show ?case by (simp add: iter_stack_denied)
next
  case (3 stack current e es)
  then show ?case by (simp add: dir_denied_only_def)
next
  case (4 stack current es)
  then have "\<forall>p \<in> set es. denied_only (snd p)"
    by (simp add: dir_denied_only_def)
  then have "\<forall>d \<in> set (fst (scan_entries recursive current es)). dir_denied_only d"
    by (rule scan_entries_denied_only)
  with "4.prems" have "\<forall>d \<in> set (stack @ fst (scan_entries recursive current es)). dir_denied_only d"
    by auto
  then have "snd (iter_stack recursive (stack @ fst (scan_entries recursive current es))) = None"
    by (rule "4.IH")
  then show ?case by (simp add: iter_stack_listed)
qed

lemma scan_entries_drop_symlinks:
  "scan_entries recursive current (drop_symlinks_list es) =
     (map drop_symlinks_dir (fst (scan_entries recursive current es)),
      snd (scan_entries recursive current es))"
  by (induction es) (auto simp: drop_symlinks_dir_def split: prod.splits fsnode.splits)

lemma iter_stack_drop_symlinks:
  "iter_stack recursive (map drop_symlinks_dir stack) = iter_stack recursive stack"
proof (induction stack rule: iter_stack_cases [where recursive = recursive])
  case 1
  show ?case by simp
next
  case (2 stack current es)
  then show ?case by (simp add: drop_symlinks_dir_def iter_stack_denied)
next
  case (3 stack current e es)
  then show ?case by (simp add: drop_symlinks_dir_def iter_stack_error)
next
  case (4 stack current es)
  then show ?case
    by (simp add: drop_symlinks_dir_def [of "(current, None, es)"] iter_stack_listed
        scan_entries_drop_symlinks)
qed

lemma clear_denied_dir_simps:
  "clear_denied_dir (p, Some PermissionError, es) = (p, None, [])"
  "e \<noteq> Some PermissionError \<Longrightarrow> clear_denied_dir (p, e, es) = (p, e, clear_denied_list es)"
  by (simp_all add: clear_denied_dir_def)

lemma scan_entries_clear_denied:
  "scan_entries recursive current (clear_denied_list es) =
     (map clear_denied_dir (fst (scan_entries recursive current es)),
      snd (scan_entries recursive current es))"
proof (induction es)
  case Nil
  show ?case by simp
next
  case (Cons p es)
  obtain nm nd where p: "p = (nm, nd)"
    by (cases p)
  show ?case
  proof (cases nd)
    case (Dir e sub)
    show ?thesis
    proof (cases "e = Some PermissionError")
      case True
      with Cons Dir p show ?thesis
        by (simp add: clear_denied_dir_simps split: prod.splits)
    next
      case False
      with Cons Dir p show ?thesis
        by (simp add: clear_denied_dir_simps split: prod.splits)
    qed
  next
    case File
    with Cons p show ?thesis by (simp split: prod.splits)
  next
    case (Symlink t)
    with Cons p show ?thesis by (simp split: prod.splits)
  next
    case Special
    with Cons p show ?thesis by (simp split: prod.splits)
  qed
qed

lemma iter_stack_clear_denied:
  "iter_stack recursive (map clear_denied_dir stack) = iter_stack recursive stack"
proof (induction stack rule: iter_stack_cases [where recursive = recursive])
  case 1
  show ?case by simp
next
  case (2 stack current es)
  have "iter_stack recursive (map clear_denied_dir stack @ [(current, None, [])])
      = iter_stack recursive (map clear_denied_dir stack)"
    by (simp add: iter_stack_listed)
  with 2 show ?case
    by (simp add: clear_denied_dir_simps iter_stack_denied)
next
  case (3 stack current e es)
  then show ?case by (simp add: clear_denied_dir_simps iter_stack_error)
next
  case (4 stack current es)
  then show ?case
    by (simp add: clear_denied_dir_simps iter_stack_listed scan_entries_clear_denied)
qed

section \<open>Failures of one file\<close>

lemma caught_iff:
  "caught e \<longleftrightarrow>
     e \<in> {UnidentifiedImageError, OSError, FileNotFoundError, NotADirectoryError, PermissionError}"
  by (cases e) (simp_all add: caught_def)

lemma read_image_info_Inl_iff:
  "read_image_info bi image_open p = Inl e \<longleftrightarrow>
     \<not> caught e \<and>
     (image_open p = Inl e \<or> (\<exists>img. image_open p = Inr img \<and> extract_dpi bi img = Inl e))"
  by (auto simp: read_image_info_def bind_exn_def split: sum.splits prod.splits if_splits)

lemma scan_loop_raises:
  "rd p = Inl e \<Longrightarrow> scan_loop rd cap (p # ps) fin result = Inl e"
  by simp

lemma scan_loop_skip_prefix:
  "\<forall>q \<in> set qs. rd q = Inr None \<Longrightarrow> int (length result) < cap \<Longrightarrow>
   scan_loop rd cap (qs @ ps) fin result = scan_loop rd cap ps fin result"
  by (induction qs) simp_all

lemma scan_directory_raises:
  assumes "iter_supported_files start (err, es) recursive = (qs @ p # ps, fin)"
    and "\<forall>q \<in> set qs. read_image_info bi image_open q = Inr None"
    and "0 < target_limit limit"
    and "read_image_info bi image_open p = Inl e"
  shows "scan_directory bi image_open (Inr start) (Found (Dir err es)) recursive limit = Inl e"
proof -
  have "scan_loop (read_image_info bi image_open) (target_limit limit) (qs @ p # ps) fin []
      = scan_loop (read_image_info bi image_open) (target_limit limit) (p # ps) fin []"
    using assms(2,3) by (intro scan_loop_skip_prefix) simp_all
  also have "\<dots> = Inl e"
    using assms(4) by (rule scan_loop_raises)
  finally show ?thesis
    using assms(1) by (simp add: scan_directory_dir)
qed

text \<open>
  C2, as the specification states it, fails: \<open>_read_image_info\<close> catches
  \<open>UnidentifiedImageError\<close> and \<open>OSError\<close> only. A \<open>DecompressionBombError\<close> of
  \<open>Image.open\<close> leaves it and ends the scan, and the \<open>IndexError\<close> of an empty dpi
  tuple leaves it too.
\<close>

theorem read_image_info_counterexample:
  "read_image_info ex_builtins ex_open_bomb [''photos'', ''a.png''] = Inl DecompressionBombError \<and>
   read_image_info ex_builtins ex_open_bad_dpi [''photos'', ''a.png''] = Inl IndexError \<and>
   scan_directory ex_builtins ex_open_bomb (Inr [''album'']) (Found ex_album) True None
     = Inl DecompressionBombError"
proof -
  have r: "\<And>p. read_image_info ex_builtins ex_open_bomb p = Inl DecompressionBombError"
    by (simp add: read_image_info_def ex_open_bomb_def bind_exn_def caught_def)
  have "read_image_info ex_builtins ex_open_bad_dpi [''photos'', ''a.png''] = Inl IndexError"
    by (simp add: read_image_info_def ex_open_bad_dpi_def bind_exn_def caught_def
        extract_dpi_def info_or_empty_def float_pair_def Let_def split: prod.splits)
  moreover have "scan_directory ex_builtins ex_open_bomb (Inr [''album'']) (Found ex_album) True None
     = Inl DecompressionBombError"
    by (simp add: scan_directory_dir ex_album_def walk_album r)
  ultimately show ?thesis
    using r by simp
qed

text \<open>
  C2, amended: a failure of \<open>Image.open\<close> with an \<open>UnidentifiedImageError\<close> or an
  \<open>OSError\<close> (\<open>FileNotFoundError\<close>, \<open>NotADirectoryError\<close> and \<open>PermissionError\<close>
  included) gives \<open>None\<close>, and a path that gives \<open>None\<close> adds no record, the loop going
  on with the remaining paths while the limit is not reached. An exception leaves
  \<open>_read_image_info\<close> exactly when it is of another class and is raised by
  \<open>Image.open\<close> or by the extraction of the resolution; it then ends the loop at
  whatever point the path is taken, and so the scan, after the files skipped before.
\<close>

theorem read_image_info_boundary:
  "(caught e \<longleftrightarrow>
      e \<in> {UnidentifiedImageError, OSError, FileNotFoundError, NotADirectoryError,
           PermissionError}) \<and>
   (image_open p = Inl e \<and> caught e \<longrightarrow> read_image_info bi image_open p = Inr None) \<and>
   (read_image_info bi image_open p = Inl e \<longleftrightarrow>
      \<not> caught e \<and>
      (image_open p = Inl e \<or> (\<exists>img. image_open p = Inr img \<and> extract_dpi bi img = Inl e))) \<and>
   (read_image_info bi image_open p = Inr None \<and> int (length result) < cap \<longrightarrow>
      scan_loop (read_image_info bi image_open) cap (p # ps) fin result
        = scan_loop (read_image_info bi image_open) cap ps fin result) \<and>
   (read_image_info bi image_open p = Inl e \<longrightarrow>
      scan_loop (read_image_info bi image_open) cap (p # ps) fin result = Inl e) \<and>
   (iter_supported_files start (err, es) recursive = (qs @ p # ps, fin) \<and>
    (\<forall>q \<in> set qs. read_image_info bi image_open q = Inr None) \<and>
    0 < target_limit limit \<and> read_image_info bi image_open p = Inl e \<longrightarrow>
      scan_directory bi image_open (Inr start) (Found (Dir err es)) recursive limit = Inl e)"
  using caught_iff [of e] read_image_info_caught [of image_open p e bi]
    read_image_info_Inl_iff [of bi image_open p e]
    scan_loop_skip [of "read_image_info bi image_open" p result cap ps fin]
    scan_loop_raises [of "read_image_info bi image_open" p e cap ps fin result]
    scan_directory_raises [of start err es recursive qs p ps fin bi image_open limit e]
  by blast

theorem read_image_info_boundary_witness:
  "read_image_info ex_builtins ex_open_mixed [''album'', ''a.png''] = Inr None \<and>
   scan_loop (read_image_info ex_builtins ex_open_mixed) 100000
       [[''album'', ''a.png''], [''album'', ''b.JPG'']] None []
     = scan_loop (read_image_info ex_builtins ex_open_mixed) 100000 [[''album'', ''b.JPG'']] None [] \<and>
   scan_directory ex_builtins ex_open_mixed (Inr [''album'']) (Found ex_album) True None
     = Inr [ex_rgb_record [''album'', ''b.JPG'']] \<and>
   read_image_info ex_builtins ex_open_denied_then_bomb [''album'', ''b.JPG'']
     = Inl DecompressionBombError \<and>
   scan_directory ex_builtins ex_open_denied_then_bomb (Inr [''album'']) (Found ex_album) True None
     = Inl DecompressionBombError"
proof -
  have o: "ex_open_mixed [''album'', ''a.png''] = Inl PermissionError \<and> caught PermissionError"
    by (simp add: ex_open_mixed_def caught_def)
  have len: "int (length ([] :: ImageInfo list)) < 100000"
    by simp
  have b: "read_image_info ex_builtins ex_open_mixed [''album'', ''b.JPG'']
      = Inr (Some (ex_rgb_record [''album'', ''b.JPG'']))"
    using read_ex_open [of ex_builtins "[''album'', ''b.JPG'']"]
    by (simp add: read_image_info_def ex_open_mixed_def ex_open_def)
  note t = read_image_info_boundary [where e = PermissionError and image_open = ex_open_mixed
      and p = "[''album'', ''a.png'']" and bi = ex_builtins and result = "[]" and cap = 100000
      and ps = "[[''album'', ''b.JPG'']]" and fin = None]
  from t o have n: "read_image_info ex_builtins ex_open_mixed [''album'', ''a.png''] = Inr None"
    by blast
  from t n len have s: "scan_loop (read_image_info ex_builtins ex_open_mixed) 100000
       [[''album'', ''a.png''], [''album'', ''b.JPG'']] None []
     = scan_loop (read_image_info ex_builtins ex_open_mixed) 100000 [[''album'', ''b.JPG'']] None []"
    by blast
  have run: "scan_directory ex_builtins ex_open_mixed (Inr [''album'']) (Found ex_album) True None
     = Inr [ex_rgb_record [''album'', ''b.JPG'']]"
    by (simp add: scan_directory_dir ex_album_def walk_album target_limit_def MAX_FILES_def n b)
  note u = read_image_info_boundary [where e = DecompressionBombError
      and image_open = ex_open_denied_then_bomb and p = "[''album'', ''b.JPG'']"
      and bi = ex_builtins and qs = "[[''album'', ''a.png'']]" and ps = "[]" and fin = None
      and start = "[''album'']" and err = None
      and es = "[(''a.png'', File), (''b.JPG'', File), (''notes.txt'', File)]"
      and recursive = True and limit = None]
  have bomb: "ex_open_denied_then_bomb [''album'', ''b.JPG''] = Inl DecompressionBombError \<and>
      \<not> caught DecompressionBombError"
    by (simp add: ex_open_denied_then_bomb_def caught_def)
  from u bomb have rb: "read_image_info ex_builtins ex_open_denied_then_bomb [''album'', ''b.JPG'']
      = Inl DecompressionBombError"
    by blast
  have skipped: "\<forall>q \<in> set [[''album'', ''a.png'']].
      read_image_info ex_builtins ex_open_denied_then_bomb q = Inr None"
    by (simp add: read_image_info_def ex_open_denied_then_bomb_def bind_exn_def caught_def)
  have walk: "iter_supported_files [''album'']
      (None, [(''a.png'', File), (''b.JPG'', File), (''notes.txt'', File)]) True
      = ([[''album'', ''a.png'']] @ [''album'', ''b.JPG''] # [], None)"
    by (simp add: walk_album)
  have lim: "0 < target_limit None"
    by (simp add: target_limit_def MAX_FILES_def)
  from u walk skipped lim rb
  have "scan_directory ex_builtins ex_open_denied_then_bomb (Inr [''album''])
      (Found (Dir None [(''a.png'', File), (''b.JPG'', File), (''notes.txt'', File)])) True None
      = Inl DecompressionBombError"
    by blast
  then have sb: "scan_directory ex_builtins ex_open_denied_then_bomb (Inr [''album''])
      (Found ex_album) True None = Inl DecompressionBombError"
    by (simp add: ex_album_def)
  from n s run rb sb show ?thesis by simp
qed

section \<open>Dimensions\<close>




section \<open>Fatal conditions\<close>

lemma scan_loop_returns:
  "\<forall>p \<in> set ps. \<exists>i. rd p = Inr i \<Longrightarrow> \<exists>rs. scan_loop rd cap ps None result = Inr rs"
proof (induction ps arbitrary: result)
  case Nil
  show ?case by simp
next
  case (Cons p ps)
  from Cons.prems obtain i where "rd p = Inr i" by auto
  with Cons show ?case by (simp add: Let_def)
qed

lemma scan_directory_returns:
  assumes "denied_only (Dir e es)"
    and "\<forall>p \<in> set (fst (iter_supported_files start (e, es) recursive)).
           \<exists>i. read_image_info bi image_open p = Inr i"
  shows "\<exists>rs. scan_directory bi image_open (Inr start) (Found (Dir e es)) recursive limit = Inr rs"
proof -
  have "\<forall>d \<in> set [(start, e, es)]. dir_denied_only d"
    using assms(1) by (simp add: dir_denied_only_def)
  then have "snd (iter_stack recursive [(start, e, es)]) = None"
    by (rule iter_stack_no_exception)
  then obtain paths where w: "iter_supported_files start (e, es) recursive = (paths, None)"
    by (cases "iter_stack recursive [(start, e, es)]") (simp add: iter_supported_files_def)
  with assms(2) have "\<forall>p \<in> set paths. \<exists>i. read_image_info bi image_open p = Inr i"
    by simp
  from scan_loop_returns [OF this] w show ?thesis
    by (simp add: scan_directory_dir)
qed











section \<open>Symlinks\<close>

lemma scan_entries_append:
  "scan_entries recursive current (xs @ ys) =
     (fst (scan_entries recursive current xs) @ fst (scan_entries recursive current ys),
      snd (scan_entries recursive current xs) @ snd (scan_entries recursive current ys))"
  by (induction xs) (auto split: prod.splits fsnode.splits)

lemma scan_entries_pushed:
  "map fst (fst (scan_entries recursive current es)) =
     (if recursive then map (\<lambda>p. current @ [fst p]) (filter (\<lambda>p. is_dir (snd p)) es) else [])"
  by (induction es) (auto split: prod.splits fsnode.splits)

lemma scan_entries_yielded:
  "snd (scan_entries recursive current es) =
     map (\<lambda>p. current @ [fst p])
       (filter (\<lambda>p. snd p = File \<and> lower (suffix (fst p)) \<in> dom SUPPORTED_EXTENSIONS) es)"
  by (induction es) (auto split: prod.splits fsnode.splits if_splits)

lemma walk_ex_tree_plain:
  "iter_supported_files [''photos'']
     (None, [(''a.png'', File),
             (''locked'', Dir (Some PermissionError) [(''hidden.png'', File)]),
             (''sub'', Dir None [(''b.JPG'', File), (''notes.txt'', File)])]) True
   = ([[''photos'', ''a.png''], [''photos'', ''sub'', ''b.JPG'']], None)"
  by (simp add: iter_supported_files_def iter_stack.simps lower_suffix_examples
      supported_examples)

text \<open>
  C6: a symlink among the entries of a directory is neither appended to the stack nor
  yielded: the loop does on the directory what it does without that entry, the paths
  it appends are those of the entries that are directories (none when the walk is not
  recursive) and the paths it yields are those of the regular files with a supported
  suffix. The walk of a tree is the walk of the tree without its symlinks, whatever
  they point to.
\<close>

theorem symlinks_never_followed:
  "scan_entries recursive current (es1 @ (nm, Symlink t) # es2)
     = scan_entries recursive current (es1 @ es2) \<and>
   map fst (fst (scan_entries recursive current es)) =
     (if recursive then map (\<lambda>p. current @ [fst p]) (filter (\<lambda>p. is_dir (snd p)) es) else []) \<and>
   snd (scan_entries recursive current es) =
     map (\<lambda>p. current @ [fst p])
       (filter (\<lambda>p. snd p = File \<and> lower (suffix (fst p)) \<in> dom SUPPORTED_EXTENSIONS) es) \<and>
   iter_supported_files start (e, drop_symlinks_list es) recursive
     = iter_supported_files start (e, es) recursive"
proof (intro conjI)
  show "scan_entries recursive current (es1 @ (nm, Symlink t) # es2)
     = scan_entries recursive current (es1 @ es2)"
    by (simp add: scan_entries_append [of recursive current es1] split: prod.splits)
  show "map fst (fst (scan_entries recursive current es)) =
     (if recursive then map (\<lambda>p. current @ [fst p]) (filter (\<lambda>p. is_dir (snd p)) es) else [])"
    by (rule scan_entries_pushed)
  show "snd (scan_entries recursive current es) =
     map (\<lambda>p. current @ [fst p])
       (filter (\<lambda>p. snd p = File \<and> lower (suffix (fst p)) \<in> dom SUPPORTED_EXTENSIONS) es)"
    by (rule scan_entries_yielded)
  show "iter_supported_files start (e, drop_symlinks_list es) recursive
     = iter_supported_files start (e, es) recursive"
    using iter_stack_drop_symlinks [of recursive "[(start, e, es)]"]
    by (simp add: iter_supported_files_def drop_symlinks_dir_def)
qed

theorem symlinks_never_followed_witness:
  "iter_supported_files [''photos''] (None, ex_tree) True
     = ([[''photos'', ''a.png''], [''photos'', ''sub'', ''b.JPG'']], None)"
proof -
  have "drop_symlinks_list ex_tree =
      [(''a.png'', File),
       (''locked'', Dir (Some PermissionError) [(''hidden.png'', File)]),
       (''sub'', Dir None [(''b.JPG'', File), (''notes.txt'', File)])]"
    by (simp add: ex_tree_def)
  with symlinks_never_followed [of True "[]" "[]" "[]" "[]" "[]" ex_tree "[''photos'']" None]
  show ?thesis
    by (simp add: walk_ex_tree_plain)
qed

section \<open>Directories that may not be enumerated\<close>

text \<open>
  C7: a directory whose enumeration raises a \<open>PermissionError\<close> is taken off the stack
  and the walk goes on with the rest of the stack; at any depth it counts as an empty
  directory, so that the files of the other directories are yielded as without it;
  when no enumeration raises another exception the walk ends without one, and the
  scan returns normally when no read of a path that the walk yields raises.
\<close>

theorem permission_denied_skipped:
  "iter_stack recursive (stack @ [(current, Some PermissionError, es)])
     = iter_stack recursive stack \<and>
   iter_stack recursive (map clear_denied_dir stack) = iter_stack recursive stack \<and>
   ((\<forall>d \<in> set stack. dir_denied_only d) \<longrightarrow> snd (iter_stack recursive stack) = None) \<and>
   (denied_only (Dir e sub) \<and>
    (\<forall>p \<in> set (fst (iter_supported_files start (e, sub) recursive)).
       \<exists>i. read_image_info bi image_open p = Inr i) \<longrightarrow>
      (\<exists>rs. scan_directory bi image_open (Inr start) (Found (Dir e sub)) recursive limit = Inr rs))"
  using iter_stack_denied [of recursive stack current es]
    iter_stack_clear_denied [of recursive stack]
    iter_stack_no_exception [of stack recursive]
    scan_directory_returns [of e sub start recursive bi image_open limit]
  by blast

theorem permission_denied_skipped_witness:
  "scan_directory ex_builtins ex_open (Inr [''photos'']) (Found (Dir None ex_tree)) True None
     = Inr [ex_rgb_record [''photos'', ''a.png''], ex_rgb_record [''photos'', ''sub'', ''b.JPG'']]"
proof -
  have cleared: "map clear_denied_dir [([''photos''], None, ex_tree)] =
      [([''photos''], None,
        [(''a.png'', File),
         (''link.png'', Symlink [''elsewhere'', ''b.png'']),
         (''loop'', Symlink [''photos'']),
         (''locked'', Dir None []),
         (''sub'', Dir None [(''b.JPG'', File), (''notes.txt'', File)])])]"
    by (simp add: clear_denied_dir_def ex_tree_def)
  have "iter_stack True
      [([''photos''], None,
        [(''a.png'', File),
         (''link.png'', Symlink [''elsewhere'', ''b.png'']),
         (''loop'', Symlink [''photos'']),
         (''locked'', Dir None []),
         (''sub'', Dir None [(''b.JPG'', File), (''notes.txt'', File)])])]
      = ([[''photos'', ''a.png''], [''photos'', ''sub'', ''b.JPG'']], None)"
    by (simp add: iter_stack.simps lower_suffix_examples supported_examples)
  with permission_denied_skipped [where recursive = True
      and stack = "[([''photos''], None, ex_tree)]"] cleared
  have "iter_supported_files [''photos''] (None, ex_tree) True
      = ([[''photos'', ''a.png''], [''photos'', ''sub'', ''b.JPG'']], None)"
    by (simp add: iter_supported_files_def)
  then show ?thesis
    by (simp add: scan_directory_dir read_ex_open target_limit_def MAX_FILES_def)
qed

end
